theory Spec2Isabelle
  imports Main "HOL-Library.Char_ord" "HOL-Library.List_Lexorder" "HOL-Library.Sublist"
begin

section \<open>The console dashboard of incus-osd (internal/tui/tui.go)\<close>

text \<open>
  Go strings are byte sequences and \<open>len\<close> counts bytes, so a Go string is a
  \<^typ>\<open>string\<close> here and \<open>len\<close> is \<^const>\<open>length\<close>. A Go \<open>error\<close> is
  represented by the text its \<open>Error()\<close> method returns. Go's \<open>int\<close> is
  \<^typ>\<open>int\<close>: the only arithmetic on it adds lengths of strings held in memory.
\<close>

subsection \<open>The functions of package strings that the file calls\<close>

text \<open>\<open>strings.Split(s, " ")\<close>: the pieces of \<open>s\<close> between the separators; always
  at least one piece, and an empty piece between two adjacent separators.\<close>

fun Split :: "char \<Rightarrow> string \<Rightarrow> string list" where
  "Split sep [] = [[]]"
| "Split sep (c # cs) =
     (if c = sep then [] # Split sep cs
      else (case Split sep cs of
              [] \<Rightarrow> [[c]]
            | w # ws \<Rightarrow> (c # w) # ws))"

text \<open>\<open>strings.Join(elems, sep)\<close>.\<close>

fun Join :: "string list \<Rightarrow> string \<Rightarrow> string" where
  "Join [] sep = []"
| "Join [x] sep = x"
| "Join (x # y # ys) sep = x @ sep @ Join (y # ys) sep"

text \<open>\<open>strings.Contains(s, substr)\<close>: some suffix of \<open>s\<close> starts with \<open>substr\<close>.\<close>

fun Contains :: "string \<Rightarrow> string \<Rightarrow> bool" where
  "Contains [] sub = (sub = [])"
| "Contains (c # s) sub = (prefix sub (c # s) \<or> Contains s sub)"

text \<open>\<open>strings.HasPrefix(s, p)\<close>.\<close>

definition HasPrefix :: "string \<Rightarrow> string \<Rightarrow> bool" where
  "HasPrefix s p = prefix p s"

subsection \<open>wrapFooterText\<close>

text \<open>
  The body of the \<open>for _, word := range strings.Split(text, " ")\<close> loop. The loop
  state is \<open>(ret, currentLine, currentLen)\<close>.
\<close>

type_synonym wrap_state = "string list \<times> string \<times> int"

fun wrap_step :: "int \<Rightarrow> wrap_state \<Rightarrow> string \<Rightarrow> wrap_state" where
  "wrap_step maxLineLength (ret, currentLine, currentLen) word =
     (if currentLen + int (length word) > maxLineLength
      then (ret @ [currentLine], word @ '' '', int (length word) + 1)
      else (ret, currentLine @ word @ '' '', currentLen + (int (length word) + 1)))"

fun wrap_loop :: "int \<Rightarrow> string list \<Rightarrow> wrap_state \<Rightarrow> wrap_state" where
  "wrap_loop maxLineLength [] st = st"
| "wrap_loop maxLineLength (word # ws) st =
     wrap_loop maxLineLength ws (wrap_step maxLineLength st word)"

definition label_prefix :: "string \<Rightarrow> string" where
  "label_prefix label = ''[green]'' @ label @ '':[white] ''"

definition wrapFooterText :: "string \<Rightarrow> string \<Rightarrow> int \<Rightarrow> string list" where
  "wrapFooterText label text maxLineLength =
     (case wrap_loop maxLineLength (Split (CHR '' '') text)
             ([], label_prefix label, int (length label) + 2) of
        (ret, currentLine, currentLen) \<Rightarrow>
          rev (if length currentLine > 0 then ret @ [currentLine] else ret))"

subsection \<open>getIPAddresses\<close>

text \<open>
  What the collaborators of a redraw return. \<open>Inl\<close> carries the text of the error.
  The application map is given as the list of its entries (name and
  \<open>info.Version\<close>) in the order in which \<open>range\<close> visits them; the addresses
  are given by their \<open>String()\<close>; the clock is \<open>time.Now().UTC()\<close>.
\<close>

record utc_time =
  t_year :: nat
  t_month :: nat
  t_day :: nat
  t_hour :: nat
  t_minute :: nat

record env =
  GetCurrentRelease :: "string + string"
  LoadOrCreate :: "string + (string \<times> string) list"
  Now :: utc_time
  InterfaceAddrs :: "string + string list"

text \<open>The \<open>for _, addr := range addrs\<close> loop, with \<open>ret\<close> as accumulator.\<close>

fun ip_loop :: "string list \<Rightarrow> string list \<Rightarrow> string list" where
  "ip_loop [] ret = ret"
| "ip_loop (addr # addrs) ret =
     (if addr = '''' \<or> addr = ''127.0.0.1/8'' \<or> addr = ''::1/128''
         \<or> HasPrefix addr ''fe80:''
      then ip_loop addrs ret
      else ip_loop addrs (ret @ [addr]))"

definition getIPAddresses :: "env \<Rightarrow> string list" where
  "getIPAddresses e =
     (case InterfaceAddrs e of
        Inl err \<Rightarrow> [err]
      | Inr addrs \<Rightarrow> ip_loop addrs [])"

subsection \<open>The dashboard\<close>

text \<open>
  The parts of tview and tcell that the file drives. A \<open>tview.Frame\<close> keeps the
  texts added to it in order (\<open>AddText\<close> appends, \<open>Clear\<close> removes them all) and
  one contained primitive (\<open>SetPrimitive\<close>), held by reference. The application
  counts the repaints requested with \<open>Draw\<close>.
\<close>

datatype align = AlignLeft | AlignCenter | AlignRight

datatype color = ColorWhite

record frameText =
  ft_text :: string
  ft_header :: bool
  ft_align :: align
  ft_color :: color

datatype primitive = TextViewRef

record frame =
  f_text :: "frameText list"
  f_primitive :: "primitive option"
  f_borders :: "int list"

record textView =
  tv_buffer :: string

record screen =
  scr_width :: int
  scr_height :: int

record application =
  a_draws :: nat

text \<open>The fields of \<open>tui\<close> are pointers (the screen an interface value):
  \<open>None\<close> is \<open>nil\<close>.\<close>

record tui =
  app :: "application option"
  frame :: "frame option"
  pages :: "string list option"
  screen :: "screen option"
  textView :: "textView option"

datatype panic = NilDereference

definition Clear :: "frame \<Rightarrow> frame" where
  "Clear f = f\<lparr>f_text := []\<rparr>"

definition AddText :: "frame \<Rightarrow> string \<Rightarrow> bool \<Rightarrow> align \<Rightarrow> color \<Rightarrow> frame" where
  "AddText f txt header al col =
     f\<lparr>f_text := f_text f @ [\<lparr>ft_text = txt, ft_header = header, ft_align = al, ft_color = col\<rparr>]\<rparr>"

definition SetPrimitive :: "frame \<Rightarrow> primitive \<Rightarrow> frame" where
  "SetPrimitive f p = f\<lparr>f_primitive := Some p\<rparr>"

definition Draw :: "application \<Rightarrow> application" where
  "Draw a = a\<lparr>a_draws := Suc (a_draws a)\<rparr>"

subsection \<open>redrawScreen\<close>

text \<open>\<open>Format("2006-01-02 15:04 UTC")\<close>: the year on at least four digits, the
  other fields on two, zero-padded; \<open>UTC\<close> is literal text of the layout.\<close>

definition digit :: "nat \<Rightarrow> char" where
  "digit n = ''0123456789'' ! (n mod 10)"

function decimal :: "nat \<Rightarrow> string" where
  "decimal n = (if n < 10 then [digit n] else decimal (n div 10) @ [digit n])"
  by pat_completeness auto
termination
  by (relation "measure id") auto

declare decimal.simps [simp del]

definition zero_pad :: "nat \<Rightarrow> string \<Rightarrow> string" where
  "zero_pad w s = replicate (w - length s) (CHR ''0'') @ s"

definition Format_utc :: "utc_time \<Rightarrow> string" where
  "Format_utc t =
     zero_pad 4 (decimal (t_year t)) @ ''-'' @ zero_pad 2 (decimal (t_month t)) @ ''-''
       @ zero_pad 2 (decimal (t_day t)) @ '' '' @ zero_pad 2 (decimal (t_hour t)) @ '':''
       @ zero_pad 2 (decimal (t_minute t)) @ '' UTC''"

text \<open>The \<open>for app, info := range s.Applications\<close> loop.\<close>

fun apps_loop :: "(string \<times> string) list \<Rightarrow> string list \<Rightarrow> string list" where
  "apps_loop [] applications = applications"
| "apps_loop ((a, version) # rest) applications =
     apps_loop rest (applications @ [a @ ''('' @ version @ '')''])"

text \<open>The two \<open>for _, line := range wrapFooterText(...)\<close> loops.\<close>

fun footer_loop :: "string list \<Rightarrow> frame \<Rightarrow> frame" where
  "footer_loop [] f = f"
| "footer_loop (line # rest) f = footer_loop rest (AddText f line False AlignLeft ColorWhite)"

text \<open>
  \<open>redrawScreen\<close> returns nothing; the result is the dashboard after the call.
  Calling \<open>Size\<close> on a nil screen or \<open>Draw\<close> on a nil application panics.
\<close>

definition redrawScreen :: "env \<Rightarrow> tui \<Rightarrow> panic + tui" where
  "redrawScreen e t =
     (case frame t of
        None \<Rightarrow> Inr t
      | Some f0 \<Rightarrow>
          let incusOSVersion =
                (case GetCurrentRelease e of
                   Inl err \<Rightarrow> ''['' @ err @ '']''
                 | Inr v \<Rightarrow> v);
              applications =
                sort (case LoadOrCreate e of
                        Inr s \<Rightarrow> apps_loop s []
                      | Inl err \<Rightarrow> []);
              f1 = Clear f0;
              f2 = AddText f1 (''Incus OS '' @ incusOSVersion) True AlignCenter ColorWhite;
              f3 = AddText f2 (Format_utc (Now e)) True AlignRight ColorWhite
          in (case screen t of
                None \<Rightarrow> Inl NilDereference
              | Some scr \<Rightarrow>
                  let consoleWidth = scr_width scr;
                      f4 = footer_loop
                             (wrapFooterText ''IP Address(es)''
                                (Join (getIPAddresses e) '', '') consoleWidth) f3;
                      f5 = footer_loop
                             (wrapFooterText ''Installed application(s)''
                                (Join applications '', '') consoleWidth) f4;
                      f6 = (if textView t \<noteq> None then SetPrimitive f5 TextViewRef else f5)
                  in (case app t of
                        None \<Rightarrow> Inl NilDereference
                      | Some a \<Rightarrow> Inr (t\<lparr>frame := Some f6, app := Some (Draw a)\<rparr>))))"

subsection \<open>Write\<close>

text \<open>
  What a writer does with the bytes handed to it by \<open>fmt.Fprint\<close>: it accepts them
  all, or it stops after some of them with an error. \<open>Fprint\<close> returns the
  writer's content afterwards, the count of bytes accepted, and the error.
\<close>

datatype write_outcome = WriteOk | WriteErr nat string

definition Fprint :: "write_outcome \<Rightarrow> string \<Rightarrow> string \<Rightarrow> string \<times> int \<times> string option" where
  "Fprint outcome w s =
     (case outcome of
        WriteOk \<Rightarrow> (w @ s, int (length s), None)
      | WriteErr n err \<Rightarrow> (w @ take n s, int (min n (length s)), Some err))"

record write_env =
  body_outcome :: write_outcome
  stdout_outcome :: write_outcome

text \<open>Lines 46 to 53: the chunk that is handed to the text view.\<close>

definition colorize :: "string \<Rightarrow> string" where
  "colorize p =
     (if Contains p ''level=WARN'' then ''[orange]'' @ p @ ''[white]''
      else if Contains p ''level=ERROR'' then ''[red]'' @ p @ ''[white]''
      else p)"

text \<open>
  \<open>Write\<close> works on the text view of the dashboard and on the standard output of the
  process (its content so far is \<open>out\<close>); it returns \<open>(n, err)\<close> and leaves both
  behind. Writing through a nil text view panics. The repaint that the text view
  requests through its changed-callback runs on its own and is not part of \<open>Write\<close>.
\<close>

definition Write :: "write_env \<Rightarrow> tui \<Rightarrow> string \<Rightarrow> string
    \<Rightarrow> panic + ((int \<times> string option) \<times> tui \<times> string)" where
  "Write we t out p =
     (let s = colorize p
      in (case textView t of
            None \<Rightarrow> Inl NilDereference
          | Some tv \<Rightarrow>
              (case Fprint (body_outcome we) (tv_buffer tv) s of
                 (buf, num, err) \<Rightarrow>
                   let t' = t\<lparr>textView := Some (tv\<lparr>tv_buffer := buf\<rparr>)\<rparr>
                   in if err \<noteq> None then Inr ((num, err), t', out)
                      else (case Fprint (stdout_outcome we) out p of
                              (out', n, e) \<Rightarrow> Inr ((n, e), t', out')))))"

subsection \<open>newTUI and GetTUI\<close>

text \<open>What opening the consoles and binding a screen to them return. With an error,
  \<open>tcell.NewTerminfoScreenFromTty\<close> returns a nil screen.\<close>

record ctor_env =
  newTtyMultiplexer :: "string + unit"
  NewTerminfoScreenFromTty :: "string + screen"

definition empty_tui :: tui where
  "empty_tui = \<lparr>app = None, frame = None, pages = None, screen = None, textView = None\<rparr>"

definition newTUI :: "ctor_env \<Rightarrow> tui \<times> string option" where
  "newTUI ce =
     (let ret = empty_tui
      in (case newTtyMultiplexer ce of
            Inl err \<Rightarrow> (ret, Some err)
          | Inr ttys \<Rightarrow>
              (case NewTerminfoScreenFromTty ce of
                 Inl err \<Rightarrow> (ret\<lparr>screen := None\<rparr>, Some err)
               | Inr scr \<Rightarrow>
                   (ret\<lparr>screen := Some scr,
                        textView := Some \<lparr>tv_buffer = []\<rparr>,
                        frame := Some \<lparr>f_text = [], f_primitive = None,
                                        f_borders = [0, 0, 1, 1, 0, 0]\<rparr>,
                        pages := Some [''frame''],
                        app := Some \<lparr>a_draws = 0\<rparr>\<rparr>, None))))"

text \<open>
  \<open>GetTUI\<close> reads and writes the package variable \<open>tuiInstance\<close>; it returns the
  pair \<open>(instance, err)\<close> and the variable afterwards.
\<close>

definition GetTUI :: "ctor_env \<Rightarrow> tui option \<Rightarrow> (tui option \<times> string option) \<times> tui option" where
  "GetTUI ce tuiInstance =
     (case tuiInstance of
        None \<Rightarrow>
          (case newTUI ce of
             (ret, err) \<Rightarrow>
               if err \<noteq> None then ((None, err), Some ret)
               else ((Some ret, None), Some ret))
      | Some inst \<Rightarrow> ((Some inst, None), Some inst))"

subsection \<open>The redraw loop of Run\<close>

text \<open>
  Go's \<open>%\<close> truncates towards zero, and \<open>i++\<close> on the 64-bit \<open>int\<close> wraps.
\<close>

definition go_rem :: "int \<Rightarrow> int \<Rightarrow> int" where
  "go_rem a b = (if a < 0 then - ((- a) mod \<bar>b\<bar>) else a mod \<bar>b\<bar>)"

definition incr :: "int \<Rightarrow> int" where
  "incr i = (if i = 2 ^ 63 - 1 then - (2 ^ 63) else i + 1)"

text \<open>
  What one iteration does to the world, in order: the file written with its bytes and
  the error \<open>os.WriteFile\<close> returned, the redraw, the sleep (in seconds).
\<close>

datatype event =
    WriteFile string string "string option"
  | Redraw
  | Sleep nat

record run_env =
  console_write :: "int \<Rightarrow> string option"
  redraw_env :: "int \<Rightarrow> env"

definition tick :: "run_env \<Rightarrow> int \<Rightarrow> tui \<times> event list \<Rightarrow> panic + (tui \<times> event list)" where
  "tick re i st =
     (case st of
        (t, trace) \<Rightarrow>
          let trace1 = (if go_rem i 12 = 1
                        then trace @ [WriteFile ''/dev/console'' [CHR 0x1B, CHR 0x63]
                                        (console_write re i)]
                        else trace)
          in (case redrawScreen (redraw_env re i) t of
                Inl p \<Rightarrow> Inl p
              | Inr t' \<Rightarrow> Inr (t', trace1 @ [Redraw, Sleep 5])))"

text \<open>The first \<open>n\<close> iterations of \<open>for i := ...; ; i++\<close>, started at \<open>i\<close>.\<close>

fun run_loop :: "run_env \<Rightarrow> nat \<Rightarrow> int \<Rightarrow> tui \<times> event list \<Rightarrow> panic + (tui \<times> event list)" where
  "run_loop re 0 i st = Inr st"
| "run_loop re (Suc n) i st =
     (case tick re i st of
        Inl p \<Rightarrow> Inl p
      | Inr st' \<Rightarrow> run_loop re n (incr i) st')"

section \<open>Notions used to state the properties\<close>

subsection \<open>Lines of a wrapped footer\<close>

text \<open>
  A line after the label line: some text and the space that follows every word, where
  the text fits into the width \<open>w\<close> or is a single word of \<open>W\<close> that is longer than
  \<open>w\<close>.
\<close>

definition body_ok :: "int \<Rightarrow> string set \<Rightarrow> string \<Rightarrow> bool" where
  "body_ok w W l =
     (\<exists>b. l = b @ '' '' \<and> (int (length b) \<le> w \<or> (b \<in> W \<and> w < int (length b))))"

text \<open>
  The label line: the marked-up label, alone or followed by words and their spaces
  that fit into \<open>w\<close> together with the label, its colon and the space after it.
\<close>

definition label_ok :: "int \<Rightarrow> string \<Rightarrow> string \<Rightarrow> bool" where
  "label_ok w label l =
     (\<exists>added. l = label_prefix label @ added \<and>
        (added = [] \<or>
         (\<exists>b. added = b @ '' '' \<and> int (length label) + 2 + int (length b) \<le> w)))"

text \<open>The invariant of the wrapping loop; \<open>P\<close> are the words consumed so far.\<close>

definition wrap_inv :: "int \<Rightarrow> string \<Rightarrow> string set \<Rightarrow> string set \<Rightarrow> wrap_state \<Rightarrow> bool" where
  "wrap_inv w label W P st =
     (case st of
        (ret, line, len) \<Rightarrow>
          if ret = []
          then label_ok w label line \<and> len = int (length line) - 14
               \<and> (\<forall>x\<in>P. int (length x) \<le> w)
          else label_ok w label (hd ret) \<and> (\<forall>l\<in>set (tl ret). body_ok w W l)
               \<and> body_ok w W line \<and> len = int (length line)
               \<and> (\<forall>x\<in>P. w < int (length x) \<longrightarrow> x @ '' '' \<in> set (tl ret) \<union> {line}))"

subsection \<open>The texts of a redrawn frame\<close>

definition footer_text :: "string \<Rightarrow> frameText" where
  "footer_text l = \<lparr>ft_text = l, ft_header = False, ft_align = AlignLeft, ft_color = ColorWhite\<rparr>"

definition version_text :: "env \<Rightarrow> string" where
  "version_text e = (case GetCurrentRelease e of Inl err \<Rightarrow> ''['' @ err @ '']'' | Inr v \<Rightarrow> v)"

definition application_texts :: "env \<Rightarrow> string list" where
  "application_texts e =
     sort (case LoadOrCreate e of Inr s \<Rightarrow> apps_loop s [] | Inl err \<Rightarrow> [])"

definition header_texts :: "env \<Rightarrow> frameText list" where
  "header_texts e =
     [\<lparr>ft_text = ''Incus OS '' @ version_text e, ft_header = True,
        ft_align = AlignCenter, ft_color = ColorWhite\<rparr>,
      \<lparr>ft_text = Format_utc (Now e), ft_header = True,
        ft_align = AlignRight, ft_color = ColorWhite\<rparr>]"

definition ip_footer :: "env \<Rightarrow> int \<Rightarrow> frameText list" where
  "ip_footer e w =
     map footer_text (wrapFooterText ''IP Address(es)'' (Join (getIPAddresses e) '', '') w)"

definition application_footer :: "env \<Rightarrow> int \<Rightarrow> frameText list" where
  "application_footer e w =
     map footer_text
       (wrapFooterText ''Installed application(s)'' (Join (application_texts e) '', '') w)"

text \<open>The texts a frame holds after a redraw, read off a result of \<open>redrawScreen\<close>.\<close>

definition frame_texts :: "panic + tui \<Rightarrow> frameText list" where
  "frame_texts r =
     (case r of
        Inl p \<Rightarrow> []
      | Inr t \<Rightarrow> (case frame t of None \<Rightarrow> [] | Some f \<Rightarrow> f_text f))"

text \<open>
  A dashboard as \<open>newTUI\<close> leaves it: when the frame has been made, the screen and
  the application have been made too.
\<close>

definition tui_built :: "tui \<Rightarrow> bool" where
  "tui_built t = (frame t \<noteq> None \<longrightarrow> screen t \<noteq> None \<and> app t \<noteq> None)"

subsection \<open>Link-local addresses\<close>

text \<open>
  The link-local IPv6 prefix is \<open>fe80::/10\<close>: the first ten bits of the address are
  \<open>1111111010\<close>, so its first group lies between \<open>fe80\<close> and \<open>febf\<close>. Go
  prints that group as four lower-case hexadecimal digits followed by a colon. This is
  the notion the documentation of \<open>getIPAddresses\<close> names ("link-local addresses"),
  stated on the text of an address; it is not what the code tests.
\<close>

definition link_local_prefix :: "string \<Rightarrow> bool" where
  "link_local_prefix a =
     (case a of
        c1 # c2 # c3 # c4 # c5 # rest \<Rightarrow>
          c1 = CHR ''f'' \<and> c2 = CHR ''e'' \<and> c3 \<in> set ''89ab''
            \<and> c4 \<in> set ''0123456789abcdef'' \<and> c5 = CHR '':''
      | _ \<Rightarrow> False)"

subsection \<open>Events of the redraw loop\<close>

fun is_clear :: "event \<Rightarrow> bool" where
  "is_clear (WriteFile path bytes err) = (path = ''/dev/console'' \<and> bytes = [CHR 0x1B, CHR 0x63])"
| "is_clear Redraw = False"
| "is_clear (Sleep n) = False"

fun is_redraw :: "event \<Rightarrow> bool" where
  "is_redraw Redraw = True"
| "is_redraw (WriteFile path bytes err) = False"
| "is_redraw (Sleep n) = False"

subsection \<open>A dashboard and an environment to compute with\<close>

definition example_time :: utc_time where
  "example_time = \<lparr>t_year = 2026, t_month = 11, t_day = 1, t_hour = 3, t_minute = 7\<rparr>"

definition example_env :: env where
  "example_env =
     \<lparr>GetCurrentRelease = Inr ''202511010307'',
      LoadOrCreate = Inr [(''incus'', ''6.18''), (''debug'', ''1'')],
      Now = example_time,
      InterfaceAddrs = Inr [''127.0.0.1/8'', ''::1/128'', ''fe80::1/64'', ''10.0.0.5/24'']\<rparr>"

definition failing_env :: env where
  "failing_env =
     \<lparr>GetCurrentRelease = Inl ''no release'',
      LoadOrCreate = Inl ''no state'',
      Now = example_time,
      InterfaceAddrs = Inl ''route ip+net: no such network interface''\<rparr>"

definition example_tui :: tui where
  "example_tui =
     fst (newTUI \<lparr>newTtyMultiplexer = Inr (),
                  NewTerminfoScreenFromTty = Inr \<lparr>scr_width = 80, scr_height = 25\<rparr>\<rparr>)"

text \<open>A console that refuses every write, with the example data sources.\<close>

definition failing_console :: run_env where
  "failing_console = \<lparr>console_write = (\<lambda>i. Some ''permission denied''),
                       redraw_env = (\<lambda>i. example_env)\<rparr>"

section \<open>Properties\<close>

subsection \<open>Footer wrapping\<close>

lemma length_label_prefix: "int (length (label_prefix label)) = int (length label) + 16"
  by (simp add: label_prefix_def)

lemma wrap_inv_init: "wrap_inv w label W {} ([], label_prefix label, int (length label) + 2)"
  by (simp add: wrap_inv_def label_ok_def length_label_prefix)

lemma body_ok_word: "word \<in> W \<Longrightarrow> body_ok w W (word @ '' '')"
  unfolding body_ok_def by (metis not_le)

lemma wrap_inv_step:
  assumes inv: "wrap_inv w label W P st" and word: "word \<in> W"
  shows "wrap_inv w label W (insert word P) (wrap_step w st word)"
proof -
  obtain ret line len where st: "st = (ret, line, len)"
    by (cases st) auto
  show ?thesis
  proof (cases "ret = []")
    case True
    from inv st True obtain added where
      line: "line = label_prefix label @ added"
      and added: "added = [] \<or> (\<exists>b. added = b @ '' '' \<and> int (length label) + 2 + int (length b) \<le> w)"
      and len: "len = int (length line) - 14"
      and short: "\<forall>x\<in>P. int (length x) \<le> w"
      by (auto simp: wrap_inv_def label_ok_def)
    have len': "len = int (length label) + 2 + int (length added)"
      using len line length_label_prefix [of label] by simp
    show ?thesis
    proof (cases "len + int (length word) > w")
      case flush: True
      have "label_ok w label line"
        using line added unfolding label_ok_def by blast
      moreover have "body_ok w W (word @ '' '')"
        using word by (rule body_ok_word)
      moreover have "\<forall>x\<in>insert word P. w < int (length x) \<longrightarrow> x @ '' '' \<in> {word @ '' ''}"
        using short by auto
      ultimately show ?thesis
        using st True flush by (simp add: wrap_inv_def)
    next
      case fits: False
      have "label_ok w label (line @ word @ '' '')"
        unfolding label_ok_def
      proof (intro exI conjI disjI2)
        show "line @ word @ '' '' = label_prefix label @ (added @ word @ '' '')"
          using line by simp
        show "added @ word @ '' '' = (added @ word) @ '' ''" by simp
        show "int (length label) + 2 + int (length (added @ word)) \<le> w"
          using fits len' by simp
      qed
      moreover have "int (length word) \<le> w"
        using fits len' by simp
      ultimately show ?thesis
        using st True fits len short by (simp add: wrap_inv_def)
    qed
  next
    case False
    from inv st False have
      hd: "label_ok w label (hd ret)"
      and tl: "\<forall>l\<in>set (tl ret). body_ok w W l"
      and cur: "body_ok w W line"
      and len: "len = int (length line)"
      and long: "\<forall>x\<in>P. w < int (length x) \<longrightarrow> x @ '' '' \<in> set (tl ret) \<union> {line}"
      by (auto simp: wrap_inv_def)
    show ?thesis
    proof (cases "len + int (length word) > w")
      case flush: True
      have "body_ok w W (word @ '' '')"
        using word by (rule body_ok_word)
      moreover have "\<forall>x\<in>insert word P. w < int (length x) \<longrightarrow>
          x @ '' '' \<in> set (tl (ret @ [line])) \<union> {word @ '' ''}"
        using long False by auto
      ultimately show ?thesis
        using st False flush hd tl cur by (auto simp: wrap_inv_def)
    next
      case fits: False
      from cur obtain b where b: "line = b @ '' ''"
        unfolding body_ok_def by blast
      have "body_ok w W (line @ word @ '' '')"
        unfolding body_ok_def
      proof (intro exI conjI disjI1)
        show "line @ word @ '' '' = (line @ word) @ '' ''" by simp
        show "int (length (line @ word)) \<le> w" using fits len by simp
      qed
      moreover have "\<forall>x\<in>insert word P. w < int (length x) \<longrightarrow>
          x @ '' '' \<in> set (tl ret) \<union> {line @ word @ '' ''}"
      proof (intro ballI impI)
        fix x assume x: "x \<in> insert word P" and lx: "w < int (length x)"
        have "x \<noteq> word" using fits len lx by auto
        with x have "x \<in> P" by simp
        with long lx have "x @ '' '' \<in> set (tl ret) \<union> {line}" by blast
        moreover have "x @ '' '' \<noteq> line"
        proof
          assume "x @ '' '' = line"
          then have "int (length line) = int (length x) + 1" by auto
          with fits len lx show False by simp
        qed
        ultimately show "x @ '' '' \<in> set (tl ret) \<union> {line @ word @ '' ''}" by simp
      qed
      ultimately show ?thesis
        using st False fits hd tl len by (simp add: wrap_inv_def)
    qed
  qed
qed

lemma wrap_inv_loop:
  "wrap_inv w label W P st \<Longrightarrow> set ws \<subseteq> W \<Longrightarrow>
     wrap_inv w label W (P \<union> set ws) (wrap_loop w ws st)"
proof (induction ws arbitrary: st P)
  case Nil
  then show ?case by simp
next
  case (Cons word ws)
  have "wrap_inv w label W (insert word P) (wrap_step w st word)"
    using Cons.prems by (intro wrap_inv_step) auto
  then have "wrap_inv w label W (insert word P \<union> set ws) (wrap_loop w ws (wrap_step w st word))"
    using Cons.prems by (intro Cons.IH) auto
  then show ?case by simp
qed


lemma wrapFooterText_inv:
  obtains ret line len where
    "wrapFooterText label text w = rev (ret @ [line])"
    "wrap_inv w label (set (Split (CHR '' '') text)) (set (Split (CHR '' '') text)) (ret, line, len)"
proof -
  let ?W = "set (Split (CHR '' '') text)"
  obtain ret line len where
    loop: "wrap_loop w (Split (CHR '' '') text) ([], label_prefix label, int (length label) + 2)
             = (ret, line, len)"
    using prod_cases3 by blast
  have inv: "wrap_inv w label ?W ({} \<union> ?W) (ret, line, len)"
    using wrap_inv_loop [OF wrap_inv_init, of "Split (CHR '' '') text" ?W w label] loop by simp
  have "line \<noteq> []"
    using inv by (auto simp: wrap_inv_def label_ok_def body_ok_def label_prefix_def split: if_splits)
  then have "wrapFooterText label text w = rev (ret @ [line])"
    using loop by (simp add: wrapFooterText_def)
  with inv show ?thesis using that by simp
qed

text \<open>
  C1 (as the code has it). For every label, text and width \<open>w\<close>, \<open>wrapFooterText\<close>
  returns at least one line, and its last line (the first one in wrap order) is the
  marked-up label, either alone or followed by words, each with a trailing space,
  such that label, colon, space and words without the last trailing space take at
  most \<open>w\<close> characters. Every other line is some text \<open>b\<close> and one trailing space,
  where \<open>b\<close> has at most \<open>w\<close> characters or is a single word of the text that is
  longer than \<open>w\<close>. Every word of the text that is longer than \<open>w\<close> is such a line
  of its own, unbroken.
\<close>

theorem wrapFooterText_lines:
  "wrapFooterText label text w \<noteq> []
   \<and> (\<exists>added. last (wrapFooterText label text w) = ''[green]'' @ label @ '':[white] '' @ added
         \<and> (added = [] \<or>
            (\<exists>b. added = b @ '' '' \<and> int (length label) + 2 + int (length b) \<le> w)))
   \<and> (\<forall>l\<in>set (butlast (wrapFooterText label text w)).
         \<exists>b. l = b @ '' '' \<and>
           (int (length b) \<le> w \<or> (b \<in> set (Split (CHR '' '') text) \<and> w < int (length b))))
   \<and> (\<forall>x\<in>set (Split (CHR '' '') text).
         w < int (length x) \<longrightarrow> x @ '' '' \<in> set (butlast (wrapFooterText label text w)))"
proof -
  let ?W = "set (Split (CHR '' '') text)"
  obtain ret line len where
    out: "wrapFooterText label text w = rev (ret @ [line])"
    and inv: "wrap_inv w label ?W ?W (ret, line, len)"
    by (rule wrapFooterText_inv)
  show ?thesis
  proof (cases "ret = []")
    case True
    with inv have "label_ok w label line" and "\<forall>x\<in>?W. int (length x) \<le> w"
      by (auto simp: wrap_inv_def)
    then show ?thesis
      using out True by (auto simp: label_ok_def label_prefix_def)
  next
    case False
    with inv have
      hd: "label_ok w label (hd ret)"
      and tl: "\<forall>l\<in>set (tl ret). body_ok w ?W l"
      and cur: "body_ok w ?W line"
      and long: "\<forall>x\<in>?W. w < int (length x) \<longrightarrow> x @ '' '' \<in> set (tl ret) \<union> {line}"
      by (auto simp: wrap_inv_def)
    have last: "last (wrapFooterText label text w) = hd ret"
      using out False by (simp add: last_rev)
    have "butlast (rev ret) = rev (tl ret)"
      using False by (cases ret) auto
    then have bl: "set (butlast (wrapFooterText label text w)) = set (tl ret) \<union> {line}"
      using out False by (auto simp: butlast_append)
    have 1: "wrapFooterText label text w \<noteq> []"
      using out by simp
    have 2: "\<exists>added. last (wrapFooterText label text w) = ''[green]'' @ label @ '':[white] '' @ added
         \<and> (added = [] \<or>
            (\<exists>b. added = b @ '' '' \<and> int (length label) + 2 + int (length b) \<le> w))"
      using hd unfolding last label_ok_def label_prefix_def by simp
    have 3: "\<forall>l\<in>set (butlast (wrapFooterText label text w)).
         \<exists>b. l = b @ '' '' \<and>
           (int (length b) \<le> w \<or> (b \<in> ?W \<and> w < int (length b)))"
      using tl cur unfolding bl body_ok_def by blast
    have 4: "\<forall>x\<in>?W. w < int (length x) \<longrightarrow> x @ '' '' \<in> set (butlast (wrapFooterText label text w))"
      using long unfolding bl by blast
    from 1 2 3 4 show ?thesis by blast
  qed
qed

theorem wrapFooterText_lines_witness:
  "''averylongwordhere '' \<in> set (butlast (wrapFooterText ''ab'' ''x averylongwordhere  y'' 8))
   \<and> wrapFooterText ''ab'' ''x averylongwordhere  y'' 8
       = ['' y '', ''averylongwordhere '', ''[green]ab:[white] x '']"
  using wrapFooterText_lines [of "''ab''" "''x averylongwordhere  y''" 8]
  by (simp add: wrapFooterText_def label_prefix_def)

text \<open>
  C1 as stated fails: at width 12 no word of the label or of the text has more than 12
  characters, yet the label line is returned unwrapped (30 characters; 16 without the
  colour directives, 15 without the trailing space as well), and the line of the
  12-character address has 13 characters with the space that follows every word.
\<close>

theorem wrapFooterText_width_counterexample:
  "wrapFooterText ''IP Address(es)'' ''10.0.0.50/24'' 12
     = [''10.0.0.50/24 '', ''[green]IP Address(es):[white] '']
   \<and> Split (CHR '' '') ''10.0.0.50/24'' = [''10.0.0.50/24'']
   \<and> length ''10.0.0.50/24'' = 12
   \<and> \<not> int (length ''10.0.0.50/24 '') \<le> 12
   \<and> \<not> int (length ''IP Address(es):'') \<le> 12
   \<and> \<not> int (length ''[green]IP Address(es):[white] '') \<le> 12"
  by (simp add: wrapFooterText_def label_prefix_def)

subsection \<open>The library functions and the loops\<close>

text \<open>\<open>Split\<close> is the inverse of joining with the separator, and no piece contains
  the separator; \<open>Contains\<close> is the contiguous-sublist relation.\<close>

lemma Split_not_Nil: "Split sep s \<noteq> []"
  by (induction s) (auto split: list.splits)

lemma Join_Split: "Join (Split sep s) [sep] = s"
proof (induction s)
  case Nil
  show ?case by simp
next
  case (Cons c cs)
  obtain w ws where sp: "Split sep cs = w # ws"
    using Split_not_Nil [of sep cs] by (cases "Split sep cs") auto
  show ?case
  proof (cases "c = sep")
    case True
    with Cons sp show ?thesis by simp
  next
    case False
    with Cons sp show ?thesis by (cases ws) auto
  qed
qed

lemma Split_no_sep: "w \<in> set (Split sep s) \<Longrightarrow> sep \<notin> set w"
  by (induction s arbitrary: w) (auto split: if_splits list.splits)

lemma ip_loop_filter:
  "ip_loop addrs ret =
     ret @ filter (\<lambda>a. a \<noteq> '''' \<and> a \<noteq> ''127.0.0.1/8'' \<and> a \<noteq> ''::1/128''
                        \<and> \<not> prefix ''fe80:'' a) addrs"
  by (induction addrs arbitrary: ret) (simp_all add: HasPrefix_def)

lemma footer_loop_text:
  "footer_loop ls f = f\<lparr>f_text := f_text f @ map footer_text ls\<rparr>"
  by (induction ls arbitrary: f) (simp_all add: AddText_def footer_text_def)

lemma redrawScreen_built:
  assumes "frame t = Some f" and "screen t = Some scr" and "app t = Some a"
  shows "redrawScreen e t =
    Inr (t\<lparr>frame := Some (f\<lparr>f_text := header_texts e @ ip_footer e (scr_width scr)
                                          @ application_footer e (scr_width scr),
                             f_primitive := (if textView t \<noteq> None then Some TextViewRef
                                             else f_primitive f)\<rparr>),
           app := Some (Draw a)\<rparr>)"
  using assms
  by (simp add: redrawScreen_def Let_def footer_loop_text AddText_def Clear_def
      SetPrimitive_def header_texts_def ip_footer_def application_footer_def
      version_text_def application_texts_def)

lemma redrawScreen_unbuilt: "frame t = None \<Longrightarrow> redrawScreen e t = Inr t"
  by (simp add: redrawScreen_def)

lemma frame_texts_redrawScreen:
  assumes "frame t = Some f" and "screen t = Some scr" and "app t = Some a"
  shows "frame_texts (redrawScreen e t) =
     header_texts e @ ip_footer e (scr_width scr) @ application_footer e (scr_width scr)"
  by (simp add: redrawScreen_built [OF assms] frame_texts_def)

subsection \<open>The timestamp\<close>

lemma decimal_1: "n < 10 \<Longrightarrow> decimal n = [digit n]"
  by (subst decimal.simps) simp

lemma decimal_2:
  assumes "10 \<le> n" and "n < 100"
  shows "decimal n = [digit (n div 10), digit n]"
proof -
  have "n div 10 < 10" using assms by simp
  then have "decimal (n div 10) = [digit (n div 10)]" by (rule decimal_1)
  then show ?thesis using assms by (subst decimal.simps) simp
qed

lemma decimal_3:
  assumes "100 \<le> n" and "n < 1000"
  shows "decimal n = [digit (n div 100), digit (n div 10), digit n]"
proof -
  have "10 \<le> n div 10" and "n div 10 < 100" using assms by simp_all
  then have "decimal (n div 10) = [digit (n div 10 div 10), digit (n div 10)]"
    by (rule decimal_2)
  moreover have "n div 10 div 10 = n div 100" by (simp add: div_mult2_eq [symmetric])
  ultimately show ?thesis using assms by (subst decimal.simps) simp
qed

lemma decimal_4:
  assumes "1000 \<le> n" and "n < 10000"
  shows "decimal n = [digit (n div 1000), digit (n div 100), digit (n div 10), digit n]"
proof -
  have "100 \<le> n div 10" and "n div 10 < 1000" using assms by simp_all
  then have "decimal (n div 10) =
      [digit (n div 10 div 100), digit (n div 10 div 10), digit (n div 10)]"
    by (rule decimal_3)
  moreover have "n div 10 div 10 = n div 100" and "n div 10 div 100 = n div 1000"
    by (simp_all add: div_mult2_eq [symmetric])
  ultimately show ?thesis using assms by (subst decimal.simps) simp
qed

lemma digit_0: "digit 0 = CHR ''0''"
  by (simp add: digit_def)

lemma replicate_2: "replicate 2 c = [c, c]"
  by (simp add: numeral_2_eq_2)

lemma replicate_3: "replicate 3 c = [c, c, c]"
  by (simp add: numeral_3_eq_3)

lemma zero_pad_2:
  assumes "n < 100"
  shows "zero_pad 2 (decimal n) = [digit (n div 10), digit n]"
proof (cases "n < 10")
  case True
  then have "decimal n = [digit n]" and "n div 10 = 0"
    by (simp_all add: decimal_1)
  then show ?thesis
    by (simp add: zero_pad_def digit_0)
next
  case False
  with assms have "decimal n = [digit (n div 10), digit n]"
    by (simp add: decimal_2)
  then show ?thesis
    by (simp add: zero_pad_def)
qed

lemma zero_pad_4:
  assumes "n < 10000"
  shows "zero_pad 4 (decimal n) = [digit (n div 1000), digit (n div 100), digit (n div 10), digit n]"
proof -
  consider "n < 10" | "10 \<le> n" "n < 100" | "100 \<le> n" "n < 1000" | "1000 \<le> n"
    by linarith
  then show ?thesis
  proof cases
    case 1
    then have "decimal n = [digit n]" and "n div 10 = 0" and "n div 100 = 0" and "n div 1000 = 0"
      by (simp_all add: decimal_1)
    then show ?thesis
      by (simp add: zero_pad_def digit_0 replicate_2 replicate_3)
  next
    case 2
    then have "decimal n = [digit (n div 10), digit n]" and "n div 100 = 0" and "n div 1000 = 0"
      by (simp_all add: decimal_2)
    then show ?thesis
      by (simp add: zero_pad_def digit_0 replicate_2 replicate_3)
  next
    case 3
    then have "decimal n = [digit (n div 100), digit (n div 10), digit n]" and "n div 1000 = 0"
      by (simp_all add: decimal_3)
    then show ?thesis
      by (simp add: zero_pad_def digit_0 replicate_2 replicate_3)
  next
    case 4
    with assms have "decimal n = [digit (n div 1000), digit (n div 100), digit (n div 10), digit n]"
      by (simp add: decimal_4)
    then show ?thesis
      by (simp add: zero_pad_def)
  qed
qed

lemma Format_utc_layout:
  assumes "t_year t < 10000" "t_month t < 100" "t_day t < 100" "t_hour t < 100" "t_minute t < 100"
  shows "Format_utc t =
     [digit (t_year t div 1000), digit (t_year t div 100), digit (t_year t div 10), digit (t_year t),
      CHR ''-'', digit (t_month t div 10), digit (t_month t),
      CHR ''-'', digit (t_day t div 10), digit (t_day t),
      CHR '' '', digit (t_hour t div 10), digit (t_hour t),
      CHR '':'', digit (t_minute t div 10), digit (t_minute t)] @ '' UTC''"
  using assms by (simp add: Format_utc_def zero_pad_2 zero_pad_4)

lemma Format_example: "Format_utc example_time = ''2026-11-01 03:07 UTC''"
  by (simp add: Format_utc_layout example_time_def digit_def)



subsection \<open>The example dashboard and environments, evaluated\<close>

lemma example_tui_fields:
  "frame example_tui = Some \<lparr>f_text = [], f_primitive = None, f_borders = [0, 0, 1, 1, 0, 0]\<rparr>"
  "screen example_tui = Some \<lparr>scr_width = 80, scr_height = 25\<rparr>"
  "app example_tui = Some \<lparr>a_draws = 0\<rparr>"
  "textView example_tui = Some \<lparr>tv_buffer = []\<rparr>"
  "pages example_tui = Some [''frame'']"
  by (simp_all add: example_tui_def newTUI_def empty_tui_def)

lemma example_ip_footer:
  "ip_footer example_env 80 = [footer_text ''[green]IP Address(es):[white] 10.0.0.5/24 '']"
  by (simp add: ip_footer_def getIPAddresses_def example_env_def HasPrefix_def
      wrapFooterText_def label_prefix_def)

lemma example_application_texts:
  "application_texts example_env = [''debug(1)'', ''incus(6.18)'']"
  by (simp add: application_texts_def example_env_def)

lemma example_application_footer:
  "application_footer example_env 80 =
     [footer_text ''[green]Installed application(s):[white] debug(1), incus(6.18) '']"
  by (simp add: application_footer_def example_application_texts
      wrapFooterText_def label_prefix_def)

lemma example_header_texts:
  "header_texts example_env =
     [\<lparr>ft_text = ''Incus OS 202511010307'', ft_header = True,
        ft_align = AlignCenter, ft_color = ColorWhite\<rparr>,
      \<lparr>ft_text = ''2026-11-01 03:07 UTC'', ft_header = True,
        ft_align = AlignRight, ft_color = ColorWhite\<rparr>]"
  using Format_example by (simp add: header_texts_def version_text_def example_env_def)

subsection \<open>What a redraw puts into the frame\<close>

text \<open>
  C2 (as the code has it). On every redraw of a dashboard whose frame, screen and
  application have been made, the texts of the frame afterwards are, whatever they were
  before: the line \<open>Incus OS\<close> with the version, as a header, centre-aligned; the
  current UTC time, as a header, right-aligned; then the wrapped footer lines of the IP
  addresses and of the installed applications, left-aligned, wrapped at the width of
  the screen. For a year below 10000 the time has the layout
  \<open>YYYY-MM-DD HH:MM UTC\<close>.
\<close>

theorem redrawScreen_texts:
  assumes "frame t = Some f" and "screen t = Some scr" and "app t = Some a"
  shows "frame_texts (redrawScreen e t) =
     [\<lparr>ft_text = ''Incus OS '' @ version_text e, ft_header = True,
        ft_align = AlignCenter, ft_color = ColorWhite\<rparr>,
      \<lparr>ft_text = Format_utc (Now e), ft_header = True,
        ft_align = AlignRight, ft_color = ColorWhite\<rparr>]
     @ map footer_text (wrapFooterText ''IP Address(es)''
                          (Join (getIPAddresses e) '', '') (scr_width scr))
     @ map footer_text (wrapFooterText ''Installed application(s)''
                          (Join (application_texts e) '', '') (scr_width scr))
    \<and> (t_year (Now e) < 10000 \<and> t_month (Now e) \<le> 12 \<and> t_day (Now e) \<le> 31
         \<and> t_hour (Now e) < 24 \<and> t_minute (Now e) < 60 \<longrightarrow>
       Format_utc (Now e) =
         [digit (t_year (Now e) div 1000), digit (t_year (Now e) div 100),
          digit (t_year (Now e) div 10), digit (t_year (Now e)),
          CHR ''-'', digit (t_month (Now e) div 10), digit (t_month (Now e)),
          CHR ''-'', digit (t_day (Now e) div 10), digit (t_day (Now e)),
          CHR '' '', digit (t_hour (Now e) div 10), digit (t_hour (Now e)),
          CHR '':'', digit (t_minute (Now e) div 10), digit (t_minute (Now e))] @ '' UTC'')"
proof -
  have "frame_texts (redrawScreen e t) =
     [\<lparr>ft_text = ''Incus OS '' @ version_text e, ft_header = True,
        ft_align = AlignCenter, ft_color = ColorWhite\<rparr>,
      \<lparr>ft_text = Format_utc (Now e), ft_header = True,
        ft_align = AlignRight, ft_color = ColorWhite\<rparr>]
     @ map footer_text (wrapFooterText ''IP Address(es)''
                          (Join (getIPAddresses e) '', '') (scr_width scr))
     @ map footer_text (wrapFooterText ''Installed application(s)''
                          (Join (application_texts e) '', '') (scr_width scr))"
    using frame_texts_redrawScreen [OF assms, of e]
    by (simp add: header_texts_def ip_footer_def application_footer_def)
  moreover have "Format_utc (Now e) =
         [digit (t_year (Now e) div 1000), digit (t_year (Now e) div 100),
          digit (t_year (Now e) div 10), digit (t_year (Now e)),
          CHR ''-'', digit (t_month (Now e) div 10), digit (t_month (Now e)),
          CHR ''-'', digit (t_day (Now e) div 10), digit (t_day (Now e)),
          CHR '' '', digit (t_hour (Now e) div 10), digit (t_hour (Now e)),
          CHR '':'', digit (t_minute (Now e) div 10), digit (t_minute (Now e))] @ '' UTC''"
    if "t_year (Now e) < 10000 \<and> t_month (Now e) \<le> 12 \<and> t_day (Now e) \<le> 31
         \<and> t_hour (Now e) < 24 \<and> t_minute (Now e) < 60"
    using that by (intro Format_utc_layout) simp_all
  ultimately show ?thesis by blast
qed

theorem redrawScreen_texts_witness:
  "frame_texts (redrawScreen example_env example_tui) =
     [\<lparr>ft_text = ''Incus OS 202511010307'', ft_header = True,
        ft_align = AlignCenter, ft_color = ColorWhite\<rparr>,
      \<lparr>ft_text = ''2026-11-01 03:07 UTC'', ft_header = True,
        ft_align = AlignRight, ft_color = ColorWhite\<rparr>,
      \<lparr>ft_text = ''[green]IP Address(es):[white] 10.0.0.5/24 '', ft_header = False,
        ft_align = AlignLeft, ft_color = ColorWhite\<rparr>,
      \<lparr>ft_text = ''[green]Installed application(s):[white] debug(1), incus(6.18) '',
        ft_header = False, ft_align = AlignLeft, ft_color = ColorWhite\<rparr>]
   \<and> Format_utc (Now example_env) = ''2026-11-01 03:07 UTC''"
proof -
  have now: "Now example_env = example_time"
    by (simp add: example_env_def)
  from redrawScreen_texts [OF example_tui_fields(1) example_tui_fields(2) example_tui_fields(3),
      of example_env]
  have "frame_texts (redrawScreen example_env example_tui) =
      header_texts example_env @ ip_footer example_env 80 @ application_footer example_env 80"
    and "Format_utc (Now example_env) =
         [digit (2026 div 1000), digit (2026 div 100), digit (2026 div 10), digit 2026,
          CHR ''-'', digit (11 div 10), digit 11, CHR ''-'', digit (1 div 10), digit 1,
          CHR '' '', digit (3 div 10), digit 3, CHR '':'', digit (7 div 10), digit 7] @ '' UTC''"
    by (simp_all add: now example_time_def header_texts_def ip_footer_def application_footer_def)
  then show ?thesis
    by (simp add: example_header_texts example_ip_footer example_application_footer
        footer_text_def digit_def)
qed

text \<open>
  C2 as stated fails: the header line of a redrawn frame is aligned to the centre, not
  to the left.
\<close>

theorem redrawScreen_header_counterexample:
  "hd (frame_texts (redrawScreen example_env example_tui)) =
     \<lparr>ft_text = ''Incus OS 202511010307'', ft_header = True,
       ft_align = AlignCenter, ft_color = ColorWhite\<rparr>
   \<and> ft_align (hd (frame_texts (redrawScreen example_env example_tui))) \<noteq> AlignLeft"
  using frame_texts_redrawScreen [OF example_tui_fields(1) example_tui_fields(2) example_tui_fields(3),
      of example_env] example_header_texts
  by simp

subsection \<open>Failing data sources\<close>

lemma redrawScreen_returns:
  assumes "tui_built t"
  shows "\<exists>t'. redrawScreen e t = Inr t' \<and> tui_built t'"
proof (cases "frame t")
  case None
  with assms show ?thesis by (simp add: redrawScreen_unbuilt)
next
  case (Some f)
  with assms obtain scr a where "screen t = Some scr" and "app t = Some a"
    by (auto simp: tui_built_def)
  with Some show ?thesis
    by (simp add: redrawScreen_built tui_built_def)
qed

lemma newTUI_built: "tui_built (fst (newTUI ce))"
  by (simp add: newTUI_def tui_built_def empty_tui_def Let_def split: sum.splits)

lemma example_tui_built: "tui_built example_tui"
  unfolding example_tui_def by (rule newTUI_built)

lemma redrawScreen_state_failure:
  assumes "LoadOrCreate e = Inl err"
  shows "redrawScreen e t = redrawScreen (e\<lparr>LoadOrCreate := Inr []\<rparr>) t"
  using assms by (simp add: redrawScreen_def getIPAddresses_def Let_def split: option.splits)

text \<open>
  C5. A redraw of a dashboard left by \<open>newTUI\<close> never panics and has no error to
  return, whatever the data sources answer. When the release query fails with
  \<open>err\<close>, the header line reads \<open>Incus OS [err]\<close>. When loading the state
  fails, the redraw is the redraw with an empty application map: the footer of the
  installed applications is the label wrapped with an empty text.
\<close>

theorem redrawScreen_soft_failures:
  assumes "tui_built t"
  shows "(\<exists>t'. redrawScreen e t = Inr t')
    \<and> (\<forall>f err. frame t = Some f \<and> GetCurrentRelease e = Inl err \<longrightarrow>
          hd (frame_texts (redrawScreen e t)) =
            \<lparr>ft_text = ''Incus OS ['' @ err @ '']'', ft_header = True,
              ft_align = AlignCenter, ft_color = ColorWhite\<rparr>)
    \<and> (\<forall>err. LoadOrCreate e = Inl err \<longrightarrow>
          redrawScreen e t = redrawScreen (e\<lparr>LoadOrCreate := Inr []\<rparr>) t)
    \<and> (\<forall>f scr err. frame t = Some f \<and> screen t = Some scr \<and> LoadOrCreate e = Inl err \<longrightarrow>
          frame_texts (redrawScreen e t) =
            header_texts e @ ip_footer e (scr_width scr)
            @ map footer_text (wrapFooterText ''Installed application(s)'' '''' (scr_width scr)))"
proof (intro conjI allI impI)
  show "\<exists>t'. redrawScreen e t = Inr t'"
    using redrawScreen_returns [OF assms] by blast
next
  fix f err assume h: "frame t = Some f \<and> GetCurrentRelease e = Inl err"
  with assms obtain scr a where "screen t = Some scr" and "app t = Some a"
    by (auto simp: tui_built_def)
  with h show "hd (frame_texts (redrawScreen e t)) =
      \<lparr>ft_text = ''Incus OS ['' @ err @ '']'', ft_header = True,
        ft_align = AlignCenter, ft_color = ColorWhite\<rparr>"
    by (simp add: frame_texts_redrawScreen header_texts_def version_text_def)
next
  fix err assume "LoadOrCreate e = Inl err"
  then show "redrawScreen e t = redrawScreen (e\<lparr>LoadOrCreate := Inr []\<rparr>) t"
    by (rule redrawScreen_state_failure)
next
  fix f scr err
  assume h: "frame t = Some f \<and> screen t = Some scr \<and> LoadOrCreate e = Inl err"
  with assms obtain a where "app t = Some a"
    by (auto simp: tui_built_def)
  with h show "frame_texts (redrawScreen e t) =
      header_texts e @ ip_footer e (scr_width scr)
      @ map footer_text (wrapFooterText ''Installed application(s)'' '''' (scr_width scr))"
    by (simp add: frame_texts_redrawScreen application_footer_def application_texts_def)
qed

lemma failing_ip_footer:
  "ip_footer failing_env 80 =
     [footer_text ''[green]IP Address(es):[white] route ip+net: no such network interface '']"
  by (simp add: ip_footer_def getIPAddresses_def failing_env_def
      wrapFooterText_def label_prefix_def)

lemma failing_header_texts:
  "header_texts failing_env =
     [\<lparr>ft_text = ''Incus OS [no release]'', ft_header = True,
        ft_align = AlignCenter, ft_color = ColorWhite\<rparr>,
      \<lparr>ft_text = ''2026-11-01 03:07 UTC'', ft_header = True,
        ft_align = AlignRight, ft_color = ColorWhite\<rparr>]"
  using Format_example by (simp add: header_texts_def version_text_def failing_env_def)

lemma empty_application_footer:
  "wrapFooterText ''Installed application(s)'' '''' 80 =
     [''[green]Installed application(s):[white]  '']"
  by (simp add: wrapFooterText_def label_prefix_def)

theorem redrawScreen_soft_failures_witness:
  "tui_built example_tui
   \<and> GetCurrentRelease failing_env = Inl ''no release''
   \<and> LoadOrCreate failing_env = Inl ''no state''
   \<and> frame_texts (redrawScreen failing_env example_tui) =
     [\<lparr>ft_text = ''Incus OS [no release]'', ft_header = True,
        ft_align = AlignCenter, ft_color = ColorWhite\<rparr>,
      \<lparr>ft_text = ''2026-11-01 03:07 UTC'', ft_header = True,
        ft_align = AlignRight, ft_color = ColorWhite\<rparr>,
      footer_text ''[green]IP Address(es):[white] route ip+net: no such network interface '',
      footer_text ''[green]Installed application(s):[white]  '']"
proof -
  have st: "LoadOrCreate failing_env = Inl ''no state''"
    and rel: "GetCurrentRelease failing_env = Inl ''no release''"
    by (simp_all add: failing_env_def)
  from redrawScreen_soft_failures [OF example_tui_built, of failing_env]
  have "frame_texts (redrawScreen failing_env example_tui) =
      header_texts failing_env @ ip_footer failing_env (scr_width \<lparr>scr_width = 80, scr_height = 25\<rparr>)
      @ map footer_text (wrapFooterText ''Installed application(s)'' ''''
          (scr_width \<lparr>scr_width = 80, scr_height = 25\<rparr>))"
    using example_tui_fields(1) example_tui_fields(2) st by blast
  then show ?thesis
    using example_tui_built st rel
    by (simp add: failing_header_texts failing_ip_footer empty_application_footer)
qed

subsection \<open>Redrawing twice\<close>

lemma Draw_neq: "Draw a \<noteq> a"
proof
  assume "Draw a = a"
  then have "a_draws (Draw a) = a_draws a" by simp
  then show False by (simp add: Draw_def)
qed

text \<open>
  C6. \<open>redrawScreen\<close> returns without touching the dashboard exactly when the frame
  is nil. Whenever a redraw returns, a second redraw with the same data returns too and
  leaves the same frame (and the same pages, screen and text view): only the count of
  repaints requested from the application differs.
\<close>

theorem redrawScreen_idempotent:
  "(redrawScreen e t = Inr t \<longleftrightarrow> frame t = None)
   \<and> (\<forall>t1. redrawScreen e t = Inr t1 \<longrightarrow>
         (\<exists>t2. redrawScreen e t1 = Inr t2 \<and> frame t2 = frame t1 \<and> pages t2 = pages t1
               \<and> screen t2 = screen t1 \<and> textView t2 = textView t1))"
proof (cases "frame t")
  case None
  then show ?thesis by (simp add: redrawScreen_unbuilt)
next
  case (Some f)
  show ?thesis
  proof (cases "screen t")
    case None
    with Some show ?thesis by (simp add: redrawScreen_def Let_def)
  next
    case scr: (Some scr)
    show ?thesis
    proof (cases "app t")
      case None
      with Some scr show ?thesis by (simp add: redrawScreen_def Let_def)
    next
      case a: (Some a)
      let ?f1 = "f\<lparr>f_text := header_texts e @ ip_footer e (scr_width scr)
                                 @ application_footer e (scr_width scr),
                     f_primitive := (if textView t \<noteq> None then Some TextViewRef
                                     else f_primitive f)\<rparr>"
      let ?t1 = "t\<lparr>frame := Some ?f1, app := Some (Draw a)\<rparr>"
      have first: "redrawScreen e t = Inr ?t1"
        using Some scr a by (rule redrawScreen_built)
      have "app ?t1 \<noteq> app t"
        using a Draw_neq [of a] by simp
      then have changed: "?t1 \<noteq> t" by metis
      have "frame ?t1 = Some ?f1" and "screen ?t1 = Some scr" and "app ?t1 = Some (Draw a)"
        using scr by simp_all
      from redrawScreen_built [OF this, of e]
      have "\<exists>t2. redrawScreen e ?t1 = Inr t2 \<and> frame t2 = frame ?t1 \<and> pages t2 = pages ?t1
               \<and> screen t2 = screen ?t1 \<and> textView t2 = textView ?t1"
        by simp
      with first changed Some show ?thesis by simp
    qed
  qed
qed

theorem redrawScreen_idempotent_witness:
  "(\<exists>t1 t2. redrawScreen example_env example_tui = Inr t1 \<and> redrawScreen example_env t1 = Inr t2
      \<and> frame t2 = frame t1 \<and> frame t1 \<noteq> frame example_tui)
   \<and> redrawScreen example_env empty_tui = Inr empty_tui"
proof -
  obtain t1 where t1: "redrawScreen example_env example_tui = Inr t1"
    using redrawScreen_returns [OF example_tui_built] by blast
  with redrawScreen_idempotent [of example_env example_tui]
  obtain t2 where "redrawScreen example_env t1 = Inr t2" and "frame t2 = frame t1"
    by blast
  moreover have "frame t1 \<noteq> frame example_tui"
    using t1 redrawScreen_built [OF example_tui_fields(1) example_tui_fields(2) example_tui_fields(3),
        of example_env]
    by (auto simp: example_tui_fields(1) header_texts_def)
  moreover have "redrawScreen example_env empty_tui = Inr empty_tui"
    using redrawScreen_idempotent [of example_env empty_tui] by (simp add: empty_tui_def)
  ultimately show ?thesis using t1 by blast
qed

subsection \<open>The address filter\<close>

text \<open>
  What the loop computes: when the interfaces can be enumerated, \<open>getIPAddresses\<close>
  returns the candidate addresses in their order, without those that are empty, equal
  to \<open>127.0.0.1/8\<close>, equal to \<open>::1/128\<close>, or that start with the text
  \<open>fe80:\<close>; all the others are kept. The candidates \<open>127.0.0.1/8\<close>,
  \<open>::1/128\<close>, \<open>fe80::1/64\<close>, \<open>10.0.0.5/24\<close> give \<open>10.0.0.5/24\<close> alone.
\<close>

lemma getIPAddresses_filter:
  assumes "InterfaceAddrs e = Inr addrs"
  shows "getIPAddresses e =
     filter (\<lambda>a. \<not> (a = '''' \<or> a = ''127.0.0.1/8'' \<or> a = ''::1/128'' \<or> prefix ''fe80:'' a))
       addrs"
  using assms by (simp add: getIPAddresses_def ip_loop_filter)

lemma getIPAddresses_example:
  "InterfaceAddrs example_env = Inr [''127.0.0.1/8'', ''::1/128'', ''fe80::1/64'', ''10.0.0.5/24'']
   \<and> getIPAddresses example_env = [''10.0.0.5/24'']"
proof -
  have h: "InterfaceAddrs example_env
      = Inr [''127.0.0.1/8'', ''::1/128'', ''fe80::1/64'', ''10.0.0.5/24'']"
    by (simp add: example_env_def)
  show ?thesis
    using h getIPAddresses_filter [OF h] by simp
qed

text \<open>Every address the code's test drops does carry the link-local prefix.\<close>

lemma fe80_link_local: "HasPrefix a ''fe80:'' \<Longrightarrow> link_local_prefix a"
  by (auto simp: HasPrefix_def prefix_def link_local_prefix_def)

text \<open>
  C7. The claim asks that exactly the empty string, \<open>127.0.0.1/8\<close>, \<open>::1/128\<close>
  and the addresses carrying a link-local IPv6 prefix are excluded, as the documentation
  of the function does. The code does not do that: \<open>febf::1/64\<close> carries the
  link-local prefix \<open>fe80::/10\<close> and is returned, next to \<open>10.0.0.5/24\<close>, while
  \<open>fe80::1/64\<close> and the two loopback literals are dropped.
\<close>

theorem getIPAddresses_keeps_link_local:
  "getIPAddresses
     (example_env\<lparr>InterfaceAddrs :=
        Inr [''127.0.0.1/8'', ''::1/128'', ''fe80::1/64'', ''febf::1/64'', ''10.0.0.5/24'']\<rparr>)
     = [''febf::1/64'', ''10.0.0.5/24'']
   \<and> link_local_prefix ''febf::1/64''
   \<and> link_local_prefix ''fe80::1/64''
   \<and> \<not> link_local_prefix ''10.0.0.5/24''"
  by (simp add: getIPAddresses_def HasPrefix_def link_local_prefix_def)

text \<open>
  C10. When the enumeration of the interfaces fails, \<open>getIPAddresses\<close> returns the
  list whose only element is the text of the error, and a redraw wraps that text into
  the footer of the IP addresses as if it were an address.
\<close>

theorem getIPAddresses_error:
  assumes "InterfaceAddrs e = Inl err"
  shows "getIPAddresses e = [err]
    \<and> (\<forall>f scr a. frame t = Some f \<and> screen t = Some scr \<and> app t = Some a \<longrightarrow>
          frame_texts (redrawScreen e t) =
            header_texts e
            @ map footer_text (wrapFooterText ''IP Address(es)'' err (scr_width scr))
            @ application_footer e (scr_width scr))"
  using assms by (simp add: getIPAddresses_def frame_texts_redrawScreen ip_footer_def)

theorem getIPAddresses_error_witness:
  "InterfaceAddrs failing_env = Inl ''route ip+net: no such network interface''
   \<and> getIPAddresses failing_env = [''route ip+net: no such network interface'']
   \<and> frame_texts (redrawScreen failing_env example_tui) =
       header_texts failing_env
       @ [footer_text ''[green]IP Address(es):[white] route ip+net: no such network interface '']
       @ application_footer failing_env 80"
proof -
  have h: "InterfaceAddrs failing_env = Inl ''route ip+net: no such network interface''"
    by (simp add: failing_env_def)
  have w: "wrapFooterText ''IP Address(es)'' ''route ip+net: no such network interface'' 80
      = [''[green]IP Address(es):[white] route ip+net: no such network interface '']"
    by (simp add: wrapFooterText_def label_prefix_def)
  from getIPAddresses_error [OF h, of example_tui]
  show ?thesis
    using h w by (simp add: example_tui_fields)
qed

subsection \<open>The log sink\<close>

lemma Contains_sublist: "Contains s sub \<longleftrightarrow> sublist sub s"
  by (induction s) (auto simp: sublist_Cons_right)

text \<open>
  C3. For a chunk that contains both \<open>level=WARN\<close> and \<open>level=ERROR\<close>, the chunk
  handed to the text view is the chunk between \<open>[orange]\<close> and \<open>[white]\<close>, the
  warning colour, not \<open>[red]\<close>: when the text view accepts it, its buffer grows by
  exactly that.
\<close>

theorem Write_warning_first:
  assumes "Contains p ''level=WARN''" and "Contains p ''level=ERROR''"
    and "textView t = Some tv"
  shows "colorize p = ''[orange]'' @ p @ ''[white]''
    \<and> (\<exists>res out'. Write we t out p =
          Inr (res,
               t\<lparr>textView := Some (tv\<lparr>tv_buffer :=
                    fst (Fprint (body_outcome we) (tv_buffer tv) (''[orange]'' @ p @ ''[white]''))\<rparr>)\<rparr>,
               out'))
    \<and> (body_outcome we = WriteOk \<longrightarrow>
          (\<exists>res out'. Write we t out p =
             Inr (res,
                  t\<lparr>textView := Some (tv\<lparr>tv_buffer :=
                       tv_buffer tv @ ''[orange]'' @ p @ ''[white]''\<rparr>)\<rparr>,
                  out')))"
proof -
  have col: "colorize p = ''[orange]'' @ p @ ''[white]''"
    using assms(1) by (simp add: colorize_def)
  have body: "\<exists>res out'. Write we t out p =
          Inr (res,
               t\<lparr>textView := Some (tv\<lparr>tv_buffer :=
                    fst (Fprint (body_outcome we) (tv_buffer tv) (''[orange]'' @ p @ ''[white]''))\<rparr>)\<rparr>,
               out')"
    using assms(3) col
    by (auto simp: Write_def Let_def split: prod.splits)
  have "\<exists>res out'. Write we t out p =
             Inr (res,
                  t\<lparr>textView := Some (tv\<lparr>tv_buffer :=
                       tv_buffer tv @ ''[orange]'' @ p @ ''[white]''\<rparr>)\<rparr>,
                  out')"
    if "body_outcome we = WriteOk"
    using body that by (simp add: Fprint_def)
  with col body show ?thesis by blast
qed

theorem Write_warning_first_witness:
  "Contains ''level=ERROR level=WARN x'' ''level=WARN''
   \<and> Contains ''level=ERROR level=WARN x'' ''level=ERROR''
   \<and> (\<exists>res out'. Write \<lparr>body_outcome = WriteOk, stdout_outcome = WriteOk\<rparr> example_tui ''''
          ''level=ERROR level=WARN x''
        = Inr (res,
               example_tui\<lparr>textView :=
                 Some \<lparr>tv_buffer = ''[orange]level=ERROR level=WARN x[white]''\<rparr>\<rparr>,
               out'))"
proof -
  have w: "Contains ''level=ERROR level=WARN x'' ''level=WARN''"
    and e: "Contains ''level=ERROR level=WARN x'' ''level=ERROR''"
    by simp_all
  from Write_warning_first [OF w e example_tui_fields(4),
      of "\<lparr>body_outcome = WriteOk, stdout_outcome = WriteOk\<rparr>" "''''"]
  show ?thesis
    using w e by simp
qed

text \<open>
  C4. After the text view has accepted the (possibly coloured) chunk, \<open>Write\<close> hands
  the original bytes \<open>p\<close> to the standard output. When that succeeds, the standard
  output has grown by \<open>p\<close> itself and \<open>Write\<close> returns the length of \<open>p\<close> and
  no error. When it fails, \<open>Write\<close> returns the error of the standard output (with
  the count of bytes the standard output took), and the text view keeps the chunk it
  was given.
\<close>

theorem Write_mirror:
  assumes "textView t = Some tv" and "body_outcome we = WriteOk"
  shows "(stdout_outcome we = WriteOk \<longrightarrow>
            Write we t out p =
              Inr ((int (length p), None),
                   t\<lparr>textView := Some (tv\<lparr>tv_buffer := tv_buffer tv @ colorize p\<rparr>)\<rparr>,
                   out @ p))
    \<and> (\<forall>n err. stdout_outcome we = WriteErr n err \<longrightarrow>
            Write we t out p =
              Inr ((int (min n (length p)), Some err),
                   t\<lparr>textView := Some (tv\<lparr>tv_buffer := tv_buffer tv @ colorize p\<rparr>)\<rparr>,
                   out @ take n p))"
  using assms by (simp add: Write_def Let_def Fprint_def)

theorem Write_mirror_witness:
  "Write \<lparr>body_outcome = WriteOk, stdout_outcome = WriteOk\<rparr> example_tui ''old '' ''level=WARN disk''
     = Inr ((15, None),
            example_tui\<lparr>textView := Some \<lparr>tv_buffer = ''[orange]level=WARN disk[white]''\<rparr>\<rparr>,
            ''old level=WARN disk'')
   \<and> Write \<lparr>body_outcome = WriteOk, stdout_outcome = WriteErr 0 ''EPIPE''\<rparr> example_tui ''old ''
        ''level=WARN disk''
     = Inr ((0, Some ''EPIPE''),
            example_tui\<lparr>textView := Some \<lparr>tv_buffer = ''[orange]level=WARN disk[white]''\<rparr>\<rparr>,
            ''old '')"
proof -
  have c: "colorize ''level=WARN disk'' = ''[orange]level=WARN disk[white]''"
    by (simp add: colorize_def)
  from Write_mirror [OF example_tui_fields(4),
      of "\<lparr>body_outcome = WriteOk, stdout_outcome = WriteOk\<rparr>" "''old ''" "''level=WARN disk''"]
    Write_mirror [OF example_tui_fields(4),
      of "\<lparr>body_outcome = WriteOk, stdout_outcome = WriteErr 0 ''EPIPE''\<rparr>" "''old ''"
        "''level=WARN disk''"]
  show ?thesis
    by (simp add: c)
qed

subsection \<open>The singleton\<close>

lemma newTUI_failure:
  "snd (newTUI ce) = Some err \<longleftrightarrow>
     newTtyMultiplexer ce = Inl err
     \<or> (\<exists>ttys. newTtyMultiplexer ce = Inr ttys \<and> NewTerminfoScreenFromTty ce = Inl err)"
  by (auto simp: newTUI_def Let_def split: sum.splits)

lemma newTUI_failed_instance: "snd (newTUI ce) = Some err \<Longrightarrow> fst (newTUI ce) = empty_tui"
  by (auto simp: newTUI_def Let_def empty_tui_def split: sum.splits)

text \<open>
  C9. When the construction fails in the first call of \<open>GetTUI\<close>, that call returns
  nil and the error, but stores the instance \<open>newTUI\<close> returned beside the error,
  all of whose fields are nil; every later call, whatever the consoles do then, returns
  this instance and no error, and constructs nothing.
\<close>

theorem GetTUI_failed_construction:
  assumes "snd (newTUI ce) = Some err"
  shows "GetTUI ce None = ((None, Some err), Some empty_tui)
    \<and> (\<forall>ce'. GetTUI ce' (snd (GetTUI ce None)) = ((Some empty_tui, None), Some empty_tui))"
proof -
  have "newTUI ce = (empty_tui, Some err)"
    using assms newTUI_failed_instance [OF assms] by (simp add: prod_eq_iff)
  then show ?thesis
    by (simp add: GetTUI_def)
qed

theorem GetTUI_failed_construction_witness:
  "GetTUI \<lparr>newTtyMultiplexer = Inl ''no console'', NewTerminfoScreenFromTty = Inl ''unused''\<rparr> None
     = ((None, Some ''no console''), Some empty_tui)
   \<and> GetTUI \<lparr>newTtyMultiplexer = Inr (),
              NewTerminfoScreenFromTty = Inr \<lparr>scr_width = 80, scr_height = 25\<rparr>\<rparr>
        (snd (GetTUI \<lparr>newTtyMultiplexer = Inl ''no console'',
                       NewTerminfoScreenFromTty = Inl ''unused''\<rparr> None))
     = ((Some empty_tui, None), Some empty_tui)"
proof -
  have "snd (newTUI \<lparr>newTtyMultiplexer = Inl ''no console'',
                      NewTerminfoScreenFromTty = Inl ''unused''\<rparr>) = Some ''no console''"
    by (simp add: newTUI_def)
  from GetTUI_failed_construction [OF this]
  show ?thesis by blast
qed

subsection \<open>The redraw loop\<close>

lemma go_rem_nonneg: "0 \<le> i \<Longrightarrow> go_rem i 12 = i mod 12"
  by (simp add: go_rem_def)

lemma tick_built:
  assumes "tui_built t"
  shows "\<exists>t'. redrawScreen (redraw_env re i) t = Inr t' \<and> tui_built t'
    \<and> tick re i (t, trace) =
        Inr (t', trace
               @ (if go_rem i 12 = 1
                  then [WriteFile ''/dev/console'' [CHR 0x1B, CHR 0x63] (console_write re i)]
                  else [])
               @ [Redraw, Sleep 5])"
proof -
  obtain t' where "redrawScreen (redraw_env re i) t = Inr t'" and "tui_built t'"
    using redrawScreen_returns [OF assms] by blast
  then show ?thesis
    by (simp add: tick_def)
qed

lemma clear_step:
  "(i + 11) div 12 - (i + 10) div 12 = (if (i::int) mod 12 = 1 then 1 else 0)"
proof -
  define r where "r = i mod 12"
  have a: "(i + 11) div 12 = i div 12 + (r + 11) div 12"
    unfolding r_def by (simp add: div_add1_eq [of i 11 12])
  have b: "(i + 10) div 12 = i div 12 + (r + 10) div 12"
    unfolding r_def by (simp add: div_add1_eq [of i 10 12])
  have "0 \<le> r" and "r < 12" by (simp_all add: r_def)
  then consider "r = 0" | "r = 1" | "2 \<le> r" "r < 12" by linarith
  then have "(r + 11) div 12 - (r + 10) div 12 = (if r = 1 then 1 else 0)"
  proof cases
    case 1 then show ?thesis by simp
  next
    case 2 then show ?thesis by simp
  next
    case 3
    then have "(r + 11) div 12 = 1" and "(r + 10) div 12 = 1"
      by (auto intro: int_div_pos_eq [where r = "r - 1"] int_div_pos_eq [where r = "r - 2"])
    with 3 show ?thesis by simp
  qed
  then show ?thesis
    unfolding a b r_def by simp
qed

lemma run_loop_count:
  assumes "tui_built t" and "0 \<le> i" and "i + int n < 2 ^ 63"
  shows "\<exists>t' added. run_loop re n i (t, trace) = Inr (t', trace @ added) \<and> tui_built t'
    \<and> int (length (filter is_clear added)) = (i + int n + 10) div 12 - (i + 10) div 12
    \<and> length (filter is_redraw added) = n"
  using assms
proof (induction n arbitrary: i t trace)
  case 0
  then show ?case by simp
next
  case (Suc n)
  let ?ev = "(if go_rem i 12 = 1
              then [WriteFile ''/dev/console'' [CHR 0x1B, CHR 0x63] (console_write re i)]
              else [])
             @ [Redraw, Sleep 5]"
  obtain t1 where t1: "tui_built t1" and tk: "tick re i (t, trace) = Inr (t1, trace @ ?ev)"
    using tick_built [OF Suc.prems(1), of re i trace] by auto
  have next_i: "incr i = i + 1"
    using Suc.prems(3) by (simp add: incr_def)
  have "0 \<le> i + 1" and "i + 1 + int n < 2 ^ 63"
    using Suc.prems by simp_all
  from Suc.IH [OF t1 this, of "trace @ ?ev"]
  obtain t' added where
    run: "run_loop re n (i + 1) (t1, trace @ ?ev) = Inr (t', (trace @ ?ev) @ added)"
    and built: "tui_built t'"
    and clears: "int (length (filter is_clear added)) = (i + 1 + int n + 10) div 12 - (i + 1 + 10) div 12"
    and redraws: "length (filter is_redraw added) = n"
    by blast
  have ev_clear: "int (length (filter is_clear ?ev)) = (if i mod 12 = 1 then 1 else 0)"
    using Suc.prems(2) by (simp add: go_rem_nonneg)
  have ev_redraw: "length (filter is_redraw ?ev) = 1"
    by simp
  have "run_loop re (Suc n) i (t, trace) = Inr (t', trace @ (?ev @ added))"
    using tk run next_i by simp
  moreover have "int (length (filter is_clear (?ev @ added)))
      = (i + int (Suc n) + 10) div 12 - (i + 10) div 12"
  proof -
    have e1: "i + 1 + int n + 10 = i + int n + 11" and e2: "i + 1 + 10 = i + 11"
      and e3: "i + int (Suc n) + 10 = i + int n + 11"
      by simp_all
    have c1: "int (length (filter is_clear ?ev)) = (i + 11) div 12 - (i + 10) div 12"
      by (simp only: ev_clear clear_step)
    have c2: "int (length (filter is_clear added)) = (i + int n + 11) div 12 - (i + 11) div 12"
      using clears unfolding e1 e2 .
    have "int (length (filter is_clear (?ev @ added)))
        = int (length (filter is_clear ?ev)) + int (length (filter is_clear added))"
      by (simp only: filter_append length_append of_nat_add)
    then show ?thesis
      unfolding c1 c2 e3 by linarith
  qed
  moreover have "length (filter is_redraw (?ev @ added)) = Suc n"
    using ev_redraw redraws by simp
  ultimately show ?case
    using built by blast
qed

lemma window_12: "(i + 12 + 10) div 12 - (i + 10) div 12 = (1::int)"
  by simp

text \<open>
  C8. In every iteration of the loop, for a dashboard left by \<open>newTUI\<close>: when
  \<open>i % 12 = 1\<close> the two bytes \<open>ESC c\<close> are written to \<open>/dev/console\<close>, once and
  before the redraw; whatever that write returns, the redraw runs and gives what it
  gives without the write, and the iteration goes on to sleep. Any twelve consecutive
  iterations (below the wrap-around of the counter) redraw twelve times and write the
  clear sequence exactly once.
\<close>

theorem Run_clear_cadence:
  assumes "tui_built t"
  shows "(\<exists>t'. redrawScreen (redraw_env re i) t = Inr t'
          \<and> tick re i (t, trace) =
              Inr (t', trace
                     @ (if go_rem i 12 = 1
                        then [WriteFile ''/dev/console'' [CHR 0x1B, CHR 0x63] (console_write re i)]
                        else [])
                     @ [Redraw, Sleep 5]))
    \<and> (0 \<le> i \<and> i + 12 < 2 ^ 63 \<longrightarrow>
         (\<exists>t' added. run_loop re 12 i (t, trace) = Inr (t', trace @ added)
            \<and> length (filter is_clear added) = 1
            \<and> length (filter is_redraw added) = 12))"
proof (intro conjI impI)
  show "\<exists>t'. redrawScreen (redraw_env re i) t = Inr t'
          \<and> tick re i (t, trace) =
              Inr (t', trace
                     @ (if go_rem i 12 = 1
                        then [WriteFile ''/dev/console'' [CHR 0x1B, CHR 0x63] (console_write re i)]
                        else [])
                     @ [Redraw, Sleep 5])"
    using tick_built [OF assms, of re i trace] by blast
next
  assume range: "0 \<le> i \<and> i + 12 < 2 ^ 63"
  then have "0 \<le> i" and "i + int 12 < 2 ^ 63" by simp_all
  from run_loop_count [OF assms this, of re trace]
  obtain t' added where "run_loop re 12 i (t, trace) = Inr (t', trace @ added)"
    and "int (length (filter is_clear added)) = (i + int 12 + 10) div 12 - (i + 10) div 12"
    and "length (filter is_redraw added) = 12"
    by blast
  moreover have "(i + int 12 + 10) div 12 - (i + 10) div 12 = 1"
    using window_12 [of i] by simp
  ultimately show "\<exists>t' added. run_loop re 12 i (t, trace) = Inr (t', trace @ added)
            \<and> length (filter is_clear added) = 1
            \<and> length (filter is_redraw added) = 12"
    by auto
qed


theorem Run_clear_cadence_witness:
  "tui_built example_tui
   \<and> (\<exists>t'. redrawScreen example_env example_tui = Inr t'
         \<and> tick failing_console 1 (example_tui, []) =
             Inr (t', [WriteFile ''/dev/console'' [CHR 0x1B, CHR 0x63] (Some ''permission denied''),
                       Redraw, Sleep 5]))
   \<and> (\<exists>t' added. run_loop failing_console 12 0 (example_tui, []) = Inr (t', added)
         \<and> length (filter is_clear added) = 1 \<and> length (filter is_redraw added) = 12)"
  using Run_clear_cadence [OF example_tui_built, of failing_console 1 "[]"]
    Run_clear_cadence [OF example_tui_built, of failing_console 0 "[]"]
    example_tui_built
  by (simp add: failing_console_def go_rem_def)

end
